theory Spec2Isabelle
  imports Main
begin

section \<open>Strings\<close>

text \<open>
  A Python \<^verbatim>\<open>str\<close> is a sequence of Unicode code points, so a text is a list of
  code points. \<open>ustr_of\<close> turns an ASCII literal into such a text.
\<close>

type_synonym ustr = "nat list"

definition ustr_of :: "string \<Rightarrow> ustr" where
  "ustr_of s = map of_char s"

text \<open>
  \<^verbatim>\<open>str.isspace\<close> for one code point; the regular expression class \<^verbatim>\<open>\s\<close> of a
  \<^verbatim>\<open>str\<close> pattern and \<^verbatim>\<open>str.strip()\<close> use the same set.
\<close>

definition is_space :: "nat \<Rightarrow> bool" where
  "is_space c =
     ((9 \<le> c \<and> c \<le> 13) \<or> (28 \<le> c \<and> c \<le> 32) \<or> c = 133 \<or> c = 160 \<or> c = 5760
      \<or> (8192 \<le> c \<and> c \<le> 8202) \<or> c = 8232 \<or> c = 8233 \<or> c = 8239 \<or> c = 8287
      \<or> c = 12288)"

text \<open>\<^verbatim>\<open>s.strip()\<close>: white space removed at both ends.\<close>

definition strip :: "ustr \<Rightarrow> ustr" where
  "strip s = rev (dropWhile is_space (rev (dropWhile is_space s)))"

section \<open>The two regular expressions of \<^verbatim>\<open>extract_image_urls\<close>\<close>

text \<open>
  Both patterns are compiled with \<^verbatim>\<open>re.IGNORECASE\<close>. \<open>ieq p c\<close> says that the pattern
  character \<open>p\<close> (a lower-case ASCII letter or an ASCII symbol, as in both patterns)
  matches the code point \<open>c\<close> of the text: \<open>c\<close> is \<open>p\<close>, or its ASCII upper-case
  form, or one of the extra code points the engine folds to an ASCII letter
  (U+0130 and U+0131 for \<open>i\<close>, U+017F for \<open>s\<close>, U+212A for \<open>k\<close>).
\<close>

definition ieq :: "nat \<Rightarrow> nat \<Rightarrow> bool" where
  "ieq p c =
     (c = p \<or> (97 \<le> p \<and> p \<le> 122 \<and> c + 32 = p)
      \<or> (p = 105 \<and> (c = 304 \<or> c = 305)) \<or> (p = 115 \<and> c = 383) \<or> (p = 107 \<and> c = 8490))"

text \<open>
  A literal piece of a pattern, matched at the head of the text: the rest of the text
  after it, or \<open>None\<close>.
\<close>

fun lit :: "ustr \<Rightarrow> ustr \<Rightarrow> ustr option" where
  "lit [] s = Some s"
| "lit (p # ps) [] = None"
| "lit (p # ps) (c # s) = (if ieq p c then lit ps s else None)"

text \<open>
  \<^verbatim>\<open>https?://\<close> at the head of the text. The optional \<^verbatim>\<open>s\<close> is greedy: it is taken
  when it is there, and given back when \<^verbatim>\<open>://\<close> does not follow.
\<close>

definition scheme :: "ustr \<Rightarrow> ustr option" where
  "scheme s =
     (case lit (ustr_of ''http'') s of
        None \<Rightarrow> None
      | Some r \<Rightarrow>
          (case lit (ustr_of ''s'') r of
             None \<Rightarrow> lit (ustr_of ''://'') r
           | Some r' \<Rightarrow>
               (case lit (ustr_of ''://'') r' of
                  None \<Rightarrow> lit (ustr_of ''://'') r
                | Some r'' \<Rightarrow> Some r'')))"

text \<open>
  A greedy repetition of a character class followed by a character outside the class
  never gains from giving characters back, so \<^verbatim>\<open>[^\]]*]\<close>, \<^verbatim>\<open>[^)\s]+\)\<close> and
  \<^verbatim>\<open>[^"']+["']\<close> take the longest run of the class and then need the closing
  character.

  \<open>url_group cls s\<close> matches the group \<^verbatim>\<open>(https?://CLS+)\<close> at the head of \<open>s\<close>:
  the text of the group and the rest after it.
\<close>

definition url_group :: "(nat \<Rightarrow> bool) \<Rightarrow> ustr \<Rightarrow> (ustr \<times> ustr) option" where
  "url_group cls s =
     (case scheme s of
        None \<Rightarrow> None
      | Some r \<Rightarrow>
          (if takeWhile cls r = [] then None
           else Some (take (length s - length (dropWhile cls r)) s, dropWhile cls r)))"

text \<open>
  The Markdown pattern \<^verbatim>\<open>!\[[^\]]*]\((https?://[^)\s]+)\)\<close> tried at the head of the
  text: the group and the number of characters the whole match takes.
\<close>

definition md_class :: "nat \<Rightarrow> bool" where
  "md_class c = (c \<noteq> 41 \<and> \<not> is_space c)"

definition md_match :: "ustr \<Rightarrow> (ustr \<times> nat) option" where
  "md_match s =
     (case lit (ustr_of ''!['') s of
        None \<Rightarrow> None
      | Some s1 \<Rightarrow>
          (case lit (ustr_of '']('') (dropWhile (\<lambda>c. c \<noteq> 93) s1) of
             None \<Rightarrow> None
           | Some s2 \<Rightarrow>
               (case url_group md_class s2 of
                  None \<Rightarrow> None
                | Some (g, s3) \<Rightarrow>
                    (case lit (ustr_of '')'') s3 of
                       None \<Rightarrow> None
                     | Some s4 \<Rightarrow> Some (g, length s - length s4)))))"

text \<open>
  The HTML pattern \<^verbatim>\<open><img[^>]+src=["'](https?://[^"']+)["']\<close>. \<open>html_tail\<close> is the
  part from \<^verbatim>\<open>src=\<close> on: the group and the rest of the text after the match.
\<close>

definition quote :: "nat \<Rightarrow> bool" where
  "quote c = (c = 34 \<or> c = 39)"

definition html_tail :: "ustr \<Rightarrow> (ustr \<times> ustr) option" where
  "html_tail s =
     (case lit (ustr_of ''src='') s of
        None \<Rightarrow> None
      | Some [] \<Rightarrow> None
      | Some (q # s1) \<Rightarrow>
          (if \<not> quote q then None
           else
             (case url_group (\<lambda>c. \<not> quote c) s1 of
                None \<Rightarrow> None
              | Some (g, []) \<Rightarrow> None
              | Some (g, q' # s2) \<Rightarrow> if quote q' then Some (g, s2) else None)))"

text \<open>
  \<^verbatim>\<open>[^>]+\<close> is followed by \<^verbatim>\<open>src=\<close>, which it can swallow, so here the engine does
  backtrack: it takes the longest run free of the closing angle bracket and gives
  characters back one at a time, down to one character, until the tail matches.
  \<open>html_run s\<close> is called with at least one character of the run already taken, and
  tries the longer runs first.
\<close>

fun html_run :: "ustr \<Rightarrow> (ustr \<times> ustr) option" where
  "html_run [] = html_tail []"
| "html_run (c # s) =
     (if c \<noteq> 62 then (case html_run s of None \<Rightarrow> html_tail (c # s) | Some r \<Rightarrow> Some r)
      else html_tail (c # s))"

definition html_match :: "ustr \<Rightarrow> (ustr \<times> nat) option" where
  "html_match s =
     (case lit (ustr_of ''<img'') s of
        None \<Rightarrow> None
      | Some [] \<Rightarrow> None
      | Some (c # s1) \<Rightarrow>
          (if c = 62 then None
           else
             (case html_run s1 of
                None \<Rightarrow> None
              | Some (g, s2) \<Rightarrow> Some (g, length s - length s2))))"

text \<open>
  \<^verbatim>\<open>re.findall\<close> for a pattern with one group that matches no empty text: the scan
  goes from left to right, a match at a position yields its group and the scan goes on
  after the match, no match moves it one character on. \<open>k\<close> counts the characters
  of the last match still to be passed over.
\<close>

fun findall_from :: "(ustr \<Rightarrow> (ustr \<times> nat) option) \<Rightarrow> nat \<Rightarrow> ustr \<Rightarrow> ustr list" where
  "findall_from m k [] = []"
| "findall_from m k (c # s) =
     (if 0 < k then findall_from m (k - 1) s
      else
        (case m (c # s) of
           None \<Rightarrow> findall_from m 0 s
         | Some (g, n) \<Rightarrow> g # findall_from m (n - 1) s))"

definition findall :: "(ustr \<Rightarrow> (ustr \<times> nat) option) \<Rightarrow> ustr \<Rightarrow> ustr list" where
  "findall m s = findall_from m 0 s"

section \<open>\<^verbatim>\<open>extract_image_urls\<close>\<close>

text \<open>
  The loop over \<^verbatim>\<open>markdown_urls + html_urls\<close> with its two variables, the set
  \<^verbatim>\<open>seen\<close> and the list \<^verbatim>\<open>urls\<close>.
\<close>

fun dedup_loop :: "ustr list \<Rightarrow> ustr set \<Rightarrow> ustr list \<Rightarrow> ustr list" where
  "dedup_loop [] seen urls = urls"
| "dedup_loop (url # rest) seen urls =
     (if url \<notin> seen then dedup_loop rest (insert url seen) (urls @ [url])
      else dedup_loop rest seen urls)"

definition extract_image_urls :: "ustr \<Rightarrow> ustr list" where
  "extract_image_urls issue_body =
     (let markdown_urls = findall md_match issue_body;
          html_urls = findall html_match issue_body
      in dedup_loop (markdown_urls @ html_urls) {} [])"

section \<open>Data model\<close>

text \<open>
  An exception of class \<^verbatim>\<open>Exception\<close>, with the text that \<^verbatim>\<open>str(exc)\<close> gives for it.
  These are the exceptions \<^verbatim>\<open>except Exception\<close> catches; an interrupt of the process
  from outside is not part of the model.
\<close>

datatype exc = Exception (message: ustr)

text \<open>A \<^verbatim>\<open>pathlib.Path\<close>: \<^verbatim>\<open>Path(s)\<close>, or \<^verbatim>\<open>p / name\<close>.\<close>

datatype path = Path ustr | Div path ustr

text \<open>The three values the key \<^verbatim>\<open>"status"\<close> of an item takes.\<close>

datatype status = Skipped | Ok | Failed

text \<open>
  An item of the manifest, one field \<open>item_k\<close> for each key \<open>k\<close> of the dictionary: the
  keys \<^verbatim>\<open>index\<close>, \<^verbatim>\<open>url\<close> and \<^verbatim>\<open>status\<close> are always there, \<^verbatim>\<open>input\<close>, \<^verbatim>\<open>output\<close>
  and \<^verbatim>\<open>log\<close> only once they are assigned.
\<close>

record manifest_item =
  item_index :: nat
  item_url :: ustr
  item_status :: status
  item_input :: "ustr option"
  item_output :: "ustr option"
  item_log :: "ustr option"

record manifest =
  issue_number :: ustr
  total_images :: nat
  processed_images :: nat
  items :: "manifest_item list"

text \<open>The parsed command line.\<close>

record args =
  arg_issue_body_file :: ustr
  arg_issue_number :: ustr
  arg_output_dir :: ustr
  arg_urls_json :: ustr

text \<open>What \<^verbatim>\<open>subprocess.run\<close> returns.\<close>

record completed =
  returncode :: int
  stdout :: "ustr option"
  stderr :: "ustr option"

section \<open>The Python library and the outside world\<close>

text \<open>
  The pure library functions the script calls are parameters:
  \<^item> \<open>json_loads\<close>: \<^verbatim>\<open>json.loads\<close> on the value of \<^verbatim>\<open>--urls-json\<close>. The value is taken
    to be a JSON array of strings, the \<^verbatim>\<open>list[str]\<close> the script works with, or a text
    that \<^verbatim>\<open>json.loads\<close> rejects by raising; other JSON documents are not modelled;
  \<^item> \<open>urlparse_path\<close>: \<^verbatim>\<open>urlparse(url).path\<close>, which raises on some URLs;
  \<^item> \<open>path_suffix\<close>: \<^verbatim>\<open>Path(p).suffix\<close>;
  \<^item> \<open>str_lower\<close>: \<^verbatim>\<open>str.lower\<close>;
  \<^item> \<open>guess_extension\<close>: \<^verbatim>\<open>mimetypes.guess_extension\<close>, a string or \<^verbatim>\<open>None\<close>;
  \<^item> \<open>path_str\<close>: \<^verbatim>\<open>str(p)\<close> of a path;
  \<^item> \<open>json_dumps\<close>: \<^verbatim>\<open>json.dumps(manifest, ensure_ascii=False, indent=2)\<close>;
  \<^item> \<open>sys_executable\<close>: \<^verbatim>\<open>sys.executable\<close>.
\<close>

record pylib =
  json_loads :: "ustr \<Rightarrow> exc + ustr list"
  urlparse_path :: "ustr \<Rightarrow> exc + ustr"
  path_suffix :: "ustr \<Rightarrow> ustr"
  str_lower :: "ustr \<Rightarrow> ustr"
  guess_extension :: "ustr \<Rightarrow> ustr option"
  path_str :: "path \<Rightarrow> ustr"
  json_dumps :: "manifest \<Rightarrow> ustr"
  sys_executable :: ustr

text \<open>
  The file system, the network and the child process are a state \<open>'w\<close> with the
  operations the script performs on it. Each one returns its result, or the exception
  it raises, and the state it leaves:
  \<^item> \<open>read_text\<close>: \<^verbatim>\<open>p.read_text(encoding="utf-8")\<close>;
  \<^item> \<open>mkdir\<close>: \<^verbatim>\<open>p.mkdir(parents=True, exist_ok=True)\<close>;
  \<^item> \<open>urlopen_read\<close>: the request of \<^verbatim>\<open>download_image\<close>, \<^verbatim>\<open>urlopen\<close> with its timeout of
    60 and \<^verbatim>\<open>response.read()\<close>, giving the bytes of the body;
  \<^item> \<open>write_bytes\<close>: \<^verbatim>\<open>p.write_bytes(data)\<close>;
  \<^item> \<open>subprocess_run\<close>: \<^verbatim>\<open>subprocess.run(command, capture_output=True, text=True)\<close>;
  \<^item> \<open>path_exists\<close>: \<^verbatim>\<open>p.exists()\<close>, which reads the state only;
  \<^item> \<open>write_text\<close>: \<^verbatim>\<open>p.write_text(text, encoding="utf-8")\<close>.
\<close>

record 'w world =
  read_text :: "path \<Rightarrow> 'w \<Rightarrow> (exc + ustr) \<times> 'w"
  mkdir :: "path \<Rightarrow> 'w \<Rightarrow> (exc + unit) \<times> 'w"
  urlopen_read :: "ustr \<Rightarrow> 'w \<Rightarrow> (exc + char list) \<times> 'w"
  write_bytes :: "path \<Rightarrow> char list \<Rightarrow> 'w \<Rightarrow> (exc + unit) \<times> 'w"
  subprocess_run :: "ustr list \<Rightarrow> 'w \<Rightarrow> (exc + completed) \<times> 'w"
  path_exists :: "path \<Rightarrow> 'w \<Rightarrow> exc + bool"
  write_text :: "path \<Rightarrow> ustr \<Rightarrow> 'w \<Rightarrow> (exc + unit) \<times> 'w"

section \<open>\<^verbatim>\<open>infer_extension\<close>\<close>

definition IMAGE_EXTS :: "ustr set" where
  "IMAGE_EXTS =
     {ustr_of ''.png'', ustr_of ''.jpg'', ustr_of ''.jpeg'', ustr_of ''.webp'', ustr_of ''.bmp''}"

text \<open>
  \<^verbatim>\<open>if content_type:\<close> holds for a string that is not empty, \<^verbatim>\<open>if guessed and ...\<close>
  likewise; \<^verbatim>\<open>content_type.split(";")[0]\<close> is the text before the first semicolon.
\<close>

definition infer_extension :: "pylib \<Rightarrow> ustr \<Rightarrow> ustr option \<Rightarrow> exc + ustr" where
  "infer_extension L url content_type =
     (case urlparse_path L url of
        Inl e \<Rightarrow> Inl e
      | Inr parsed_path \<Rightarrow>
          (let suffix = str_lower L (path_suffix L parsed_path) in
           if suffix \<in> IMAGE_EXTS then Inr suffix
           else
             (case content_type of
                None \<Rightarrow> Inr (ustr_of ''.png'')
              | Some ct \<Rightarrow>
                  (if ct = [] then Inr (ustr_of ''.png'')
                   else
                     (case guess_extension L (strip (takeWhile (\<lambda>c. c \<noteq> 59) ct)) of
                        None \<Rightarrow> Inr (ustr_of ''.png'')
                      | Some guessed \<Rightarrow>
                          (if guessed \<noteq> [] \<and> str_lower L guessed \<in> IMAGE_EXTS
                           then Inr (str_lower L guessed)
                           else Inr (ustr_of ''.png'')))))))"

section \<open>\<^verbatim>\<open>download_image\<close>\<close>

definition download_image ::
  "'w world \<Rightarrow> ustr \<Rightarrow> path \<Rightarrow> 'w \<Rightarrow> (exc + unit) \<times> 'w" where
  "download_image W url save_path w =
     (case urlopen_read W url w of
        (Inl e, w1) \<Rightarrow> (Inl e, w1)
      | (Inr data, w1) \<Rightarrow>
          (if data = [] then (Inl (Exception (ustr_of ''Empty response: '' @ url)), w1)
           else write_bytes W save_path data w1))"

section \<open>\<^verbatim>\<open>run_main\<close>\<close>

text \<open>\<^verbatim>\<open>x or ""\<close> for a string or \<^verbatim>\<open>None\<close>.\<close>

definition or_empty :: "ustr option \<Rightarrow> ustr" where
  "or_empty x = (case x of None \<Rightarrow> [] | Some s \<Rightarrow> s)"

text \<open>
  \<^verbatim>\<open>result.returncode == 0 and output_path.exists()\<close> asks the file system only when
  the return code is 0.
\<close>

definition run_main ::
  "pylib \<Rightarrow> 'w world \<Rightarrow> path \<Rightarrow> path \<Rightarrow> 'w \<Rightarrow> (exc + bool \<times> ustr) \<times> 'w" where
  "run_main L W input_path output_path w =
     (let command =
            [sys_executable L, ustr_of ''main.py'', path_str L input_path,
             path_str L output_path]
      in
        (case subprocess_run W command w of
           (Inl e, w1) \<Rightarrow> (Inl e, w1)
         | (Inr result, w1) \<Rightarrow>
             (case (if returncode result = 0 then path_exists W output_path w1
                    else Inr False) of
                Inl e \<Rightarrow> (Inl e, w1)
              | Inr ok \<Rightarrow>
                  (let message = or_empty (stdout result) @ or_empty (stderr result)
                   in (Inr (ok, strip message), w1)))))"

section \<open>\<^verbatim>\<open>main\<close>\<close>

text \<open>\<^verbatim>\<open>str(n)\<close> for \<open>n \<ge> 0\<close>, as the f-strings of the file names use it.\<close>

fun str_nat :: "nat \<Rightarrow> ustr" where
  "str_nat n = (if n < 10 then [48 + n] else str_nat (n div 10) @ [48 + n mod 10])"

declare str_nat.simps [simp del]

text \<open>
  The body of the \<^verbatim>\<open>try\<close> of one turn of the loop: the item as it is after the last
  assignment and the flag \<^verbatim>\<open>ok\<close>, or the exception that left the body. The item is
  assigned to only after the last call that can raise.
\<close>

definition item_body ::
  "pylib \<Rightarrow> 'w world \<Rightarrow> path \<Rightarrow> path \<Rightarrow> nat \<Rightarrow> ustr \<Rightarrow> manifest_item \<Rightarrow> 'w
     \<Rightarrow> (exc + manifest_item \<times> bool) \<times> 'w" where
  "item_body L W inputs_dir results_dir index url item w =
     (case infer_extension L url None of
        Inl e \<Rightarrow> (Inl e, w)
      | Inr ext \<Rightarrow>
          (let input_path = Div inputs_dir (ustr_of ''input_'' @ str_nat index @ ext) in
           case download_image W url input_path w of
             (Inl e, w1) \<Rightarrow> (Inl e, w1)
           | (Inr _, w1) \<Rightarrow>
               (let output_path =
                      Div results_dir (ustr_of ''output_'' @ str_nat index @ ustr_of ''.png'')
                in
                  case run_main L W input_path output_path w1 of
                    (Inl e, w2) \<Rightarrow> (Inl e, w2)
                  | (Inr (ok, msg), w2) \<Rightarrow>
                      (Inr (item\<lparr>item_input := Some (path_str L input_path),
                                 item_output := Some (path_str L output_path),
                                 item_status := (if ok then Ok else Failed),
                                 item_log := Some msg\<rparr>, ok), w2))))"

text \<open>
  One turn of the loop up to the \<^verbatim>\<open>append\<close>: the item that is appended, whether
  \<^verbatim>\<open>processed_images\<close> was incremented, and the state.
\<close>

definition process_item ::
  "pylib \<Rightarrow> 'w world \<Rightarrow> path \<Rightarrow> path \<Rightarrow> nat \<Rightarrow> ustr \<Rightarrow> 'w
     \<Rightarrow> manifest_item \<times> bool \<times> 'w" where
  "process_item L W inputs_dir results_dir index url w =
     (let item = \<lparr>item_index = index, item_url = url, item_status = Skipped,
                   item_input = None, item_output = None, item_log = None\<rparr>
      in
        case item_body L W inputs_dir results_dir index url item w of
          (Inr (item', ok), w') \<Rightarrow> (item', ok, w')
        | (Inl e, w') \<Rightarrow> (item\<lparr>item_status := Failed, item_log := Some (message e)\<rparr>, False, w'))"

text \<open>
  The loop \<^verbatim>\<open>for index, url in enumerate(urls, start=1)\<close>, from the index \<open>index\<close> on,
  with the manifest and the state it has reached.
\<close>

fun process_items ::
  "pylib \<Rightarrow> 'w world \<Rightarrow> path \<Rightarrow> path \<Rightarrow> nat \<Rightarrow> ustr list \<Rightarrow> manifest \<Rightarrow> 'w
     \<Rightarrow> manifest \<times> 'w" where
  "process_items L W inputs_dir results_dir index [] m w = (m, w)"
| "process_items L W inputs_dir results_dir index (url # urls) m w =
     (case process_item L W inputs_dir results_dir index url w of
        (item, ok, w') \<Rightarrow>
          process_items L W inputs_dir results_dir (index + 1) urls
            (m\<lparr>processed_images := (if ok then processed_images m + 1 else processed_images m),
               items := items m @ [item]\<rparr>) w')"

text \<open>
  Line 65: \<^verbatim>\<open>json.loads(args.urls_json) if args.urls_json else extract_image_urls(issue_body)\<close>.
\<close>

definition resolve_urls :: "pylib \<Rightarrow> args \<Rightarrow> ustr \<Rightarrow> exc + ustr list" where
  "resolve_urls L a issue_body =
     (if arg_urls_json a \<noteq> [] then json_loads L (arg_urls_json a)
      else Inr (extract_image_urls issue_body))"

text \<open>
  \<^verbatim>\<open>main\<close>, from the parsed arguments on. It returns the exception that ends the run,
  or the exit status 0 together with the manifest that was written to
  \<^verbatim>\<open>manifest.json\<close>.
\<close>

definition main ::
  "pylib \<Rightarrow> 'w world \<Rightarrow> args \<Rightarrow> 'w \<Rightarrow> (exc + int \<times> manifest) \<times> 'w" where
  "main L W a w =
     (case read_text W (Path (arg_issue_body_file a)) w of
        (Inl e, w1) \<Rightarrow> (Inl e, w1)
      | (Inr issue_body, w1) \<Rightarrow>
          (case resolve_urls L a issue_body of
             Inl e \<Rightarrow> (Inl e, w1)
           | Inr urls \<Rightarrow>
               (let output_root = Path (arg_output_dir a);
                    inputs_dir = Div output_root (ustr_of ''inputs'');
                    results_dir = Div output_root (ustr_of ''results'')
                in
                  case mkdir W inputs_dir w1 of
                    (Inl e, w2) \<Rightarrow> (Inl e, w2)
                  | (Inr _, w2) \<Rightarrow>
                      (case mkdir W results_dir w2 of
                         (Inl e, w3) \<Rightarrow> (Inl e, w3)
                       | (Inr _, w3) \<Rightarrow>
                           (let manifest0 =
                                  \<lparr>issue_number = arg_issue_number a,
                                   total_images = length urls,
                                   processed_images = 0,
                                   items = []\<rparr>
                            in
                              case process_items L W inputs_dir results_dir 1 urls
                                     manifest0 w3 of
                                (m, w4) \<Rightarrow>
                                  (case write_text W
                                          (Div output_root (ustr_of ''manifest.json''))
                                          (json_dumps L m) w4 of
                                     (Inl e, w5) \<Rightarrow> (Inl e, w5)
                                   | (Inr _, w5) \<Rightarrow> (Inr (0, m), w5)))))))"

section \<open>Notions the statements use\<close>

text \<open>
  The elements of a list at the positions where they occur for the first time, in the
  order of the list.
\<close>

definition first_seen :: "'a list \<Rightarrow> 'a list" where
  "first_seen xs =
     map (\<lambda>i. xs ! i) (filter (\<lambda>i. xs ! i \<notin> set (take i xs)) [0 ..< length xs])"

text \<open>The same by recursion, with the set of the elements met so far.\<close>

fun unseen :: "'a set \<Rightarrow> 'a list \<Rightarrow> 'a list" where
  "unseen S [] = []"
| "unseen S (x # xs) = (if x \<in> S then unseen S xs else x # unseen (insert x S) xs)"












text \<open>The item the loop starts from, and the item the handler of the \<^verbatim>\<open>try\<close> leaves.\<close>

definition new_item :: "nat \<Rightarrow> ustr \<Rightarrow> manifest_item" where
  "new_item index url =
     \<lparr>item_index = index, item_url = url, item_status = Skipped,
      item_input = None, item_output = None, item_log = None\<rparr>"

definition failed_item :: "nat \<Rightarrow> ustr \<Rightarrow> exc \<Rightarrow> manifest_item" where
  "failed_item index url e =
     \<lparr>item_index = index, item_url = url, item_status = Failed,
      item_input = None, item_output = None, item_log = Some (message e)\<rparr>"

text \<open>The two paths of an item and the command line of its transform.\<close>

definition input_path_of :: "path \<Rightarrow> nat \<Rightarrow> ustr \<Rightarrow> path" where
  "input_path_of inputs_dir index ext = Div inputs_dir (ustr_of ''input_'' @ str_nat index @ ext)"

definition output_path_of :: "path \<Rightarrow> nat \<Rightarrow> path" where
  "output_path_of results_dir index =
     Div results_dir (ustr_of ''output_'' @ str_nat index @ ustr_of ''.png'')"

definition command_of :: "pylib \<Rightarrow> path \<Rightarrow> path \<Rightarrow> ustr list" where
  "command_of L input_path output_path =
     [sys_executable L, ustr_of ''main.py'', path_str L input_path, path_str L output_path]"

section \<open>A sample library and a sample world\<close>

text \<open>
  A small instance of the parameters, to run the script on: paths are joined with a
  slash, the state is the list of the paths that exist, the suffix of a path is its text
  from the last dot on, and lower case is that of ASCII.
\<close>

fun sample_path_str :: "path \<Rightarrow> ustr" where
  "sample_path_str (Path s) = s"
| "sample_path_str (Div p n) = sample_path_str p @ [47] @ n"

definition sample_suffix :: "ustr \<Rightarrow> ustr" where
  "sample_suffix p =
     (let r = takeWhile (\<lambda>c. c \<noteq> 46) (rev p)
      in if length r = length p then [] else 46 # rev r)"

definition ascii_lower :: "ustr \<Rightarrow> ustr" where
  "ascii_lower s = map (\<lambda>c. if 65 \<le> c \<and> c \<le> 90 then c + 32 else c) s"

definition sample_urls_json :: ustr where
  "sample_urls_json =
     [91, 34] @ ustr_of ''http://h/x.png'' @ [34, 44, 32, 34] @ ustr_of ''http://h/x.png''
     @ [34, 93]"

definition sample_lib :: pylib where
  "sample_lib =
     \<lparr>json_loads =
        (\<lambda>s. if s = sample_urls_json
             then Inr [ustr_of ''http://h/x.png'', ustr_of ''http://h/x.png'']
             else Inl (Exception (ustr_of ''Expecting value''))),
      urlparse_path = (\<lambda>u. Inr (dropWhile (\<lambda>c. c \<noteq> 47) (drop 8 u))),
      path_suffix = sample_suffix,
      str_lower = ascii_lower,
      guess_extension =
        (\<lambda>t. if t = ustr_of ''image/jpeg'' then Some (ustr_of ''.jpg'') else None),
      path_str = sample_path_str,
      json_dumps = (\<lambda>m. ustr_of ''{}''),
      sys_executable = ustr_of ''python3''\<rparr>"

text \<open>
  A second library, which differs from the sample in \<^verbatim>\<open>urlparse\<close> only and follows
  CPython's \<^verbatim>\<open>urlsplit\<close> on one point: the host part of a URL, between \<^verbatim>\<open>//\<close> and the
  next \<^verbatim>\<open>/\<close>, \<^verbatim>\<open>?\<close> or \<^verbatim>\<open>#\<close>, must have both square brackets or none, or else
  \<^verbatim>\<open>ValueError("Invalid IPv6 URL")\<close> is raised.
\<close>

fun after_slashes :: "ustr \<Rightarrow> ustr" where
  "after_slashes (a # b # s) = (if a = 47 \<and> b = 47 then s else after_slashes (b # s))"
| "after_slashes s = []"

definition netloc_of :: "ustr \<Rightarrow> ustr" where
  "netloc_of u = takeWhile (\<lambda>c. c \<noteq> 47 \<and> c \<noteq> 63 \<and> c \<noteq> 35) (after_slashes u)"

definition checked_urlparse_path :: "ustr \<Rightarrow> exc + ustr" where
  "checked_urlparse_path u =
     (let netloc = netloc_of u in
      if (91 \<in> set netloc \<and> 93 \<notin> set netloc) \<or> (93 \<in> set netloc \<and> 91 \<notin> set netloc)
      then Inl (Exception (ustr_of ''Invalid IPv6 URL''))
      else Inr (takeWhile (\<lambda>c. c \<noteq> 63 \<and> c \<noteq> 35)
                  (drop (length netloc) (after_slashes u))))"

definition checked_lib :: pylib where
  "checked_lib = sample_lib\<lparr>urlparse_path := checked_urlparse_path\<rparr>"

text \<open>
  In the sample world the issue body is read from any path that exists, the fetch of
  \<^verbatim>\<open>https://h/c.png\<close> times out, and the transform always exits with 0 but writes its
  output only for \<^verbatim>\<open>out/inputs/input_1.jpg\<close>.
\<close>

definition sample_issue_body :: ustr where
  "sample_issue_body =
     ustr_of ''![a](http://h/a.JPG) <img src='http://h/b'> ![c](https://h/c.png) ![a](http://h/a.JPG)''"

definition sample_world :: "ustr list world" where
  "sample_world =
     \<lparr>read_text =
        (\<lambda>p w. if sample_path_str p \<in> set w then (Inr sample_issue_body, w)
               else (Inl (Exception (ustr_of ''No such file'')), w)),
      mkdir = (\<lambda>p w. (Inr (), sample_path_str p # w)),
      urlopen_read =
        (\<lambda>u w. if u = ustr_of ''https://h/c.png''
               then (Inl (Exception (ustr_of ''timed out'')), w)
               else (Inr ''data'', w)),
      write_bytes = (\<lambda>p d w. (Inr (), sample_path_str p # w)),
      subprocess_run =
        (\<lambda>cmd w.
           (case cmd of
              [exe, script, inp, outp] \<Rightarrow>
                (if inp = ustr_of ''out/inputs/input_1.jpg''
                 then (Inr \<lparr>returncode = 0, stdout = Some (ustr_of '' done'' @ [10]),
                            stderr = Some []\<rparr>, outp # w)
                 else (Inr \<lparr>returncode = 0, stdout = Some [], stderr = Some []\<rparr>, w))
            | _ \<Rightarrow> (Inl (Exception (ustr_of ''bad command'')), w))),
      path_exists = (\<lambda>p w. Inr (sample_path_str p \<in> set w)),
      write_text = (\<lambda>p t w. (Inr (), sample_path_str p # w))\<rparr>"

definition sample_args :: args where
  "sample_args =
     \<lparr>arg_issue_body_file = ustr_of ''issue.md'', arg_issue_number = ustr_of ''7'',
      arg_output_dir = ustr_of ''out'', arg_urls_json = []\<rparr>"

definition sample_manifest :: manifest where
  "sample_manifest =
     \<lparr>issue_number = ustr_of ''7'', total_images = 3, processed_images = 1,
      items =
        [\<lparr>item_index = 1, item_url = ustr_of ''http://h/a.JPG'', item_status = Ok,
          item_input = Some (ustr_of ''out/inputs/input_1.jpg''),
          item_output = Some (ustr_of ''out/results/output_1.png''),
          item_log = Some (ustr_of ''done'')\<rparr>,
         \<lparr>item_index = 2, item_url = ustr_of ''https://h/c.png'', item_status = Failed,
          item_input = None, item_output = None,
          item_log = Some (ustr_of ''timed out'')\<rparr>,
         \<lparr>item_index = 3, item_url = ustr_of ''http://h/b'', item_status = Failed,
          item_input = Some (ustr_of ''out/inputs/input_3.png''),
          item_output = Some (ustr_of ''out/results/output_3.png''),
          item_log = Some []\<rparr>]\<rparr>"

section \<open>First occurrences\<close>

lemma dedup_loop_unseen: "dedup_loop xs S acc = acc @ unseen S xs"
  by (induction xs arbitrary: S acc) auto

lemma unseen_index:
  "unseen S xs = map (\<lambda>i. xs ! i) (filter (\<lambda>i. xs ! i \<notin> S \<union> set (take i xs)) [0 ..< length xs])"
proof (induction xs arbitrary: S)
  case Nil
  show ?case by simp
next
  case (Cons x xs)
  have upt: "[0 ..< length (x # xs)] = 0 # map Suc [0 ..< length xs]"
    by (simp add: upt_conv_Cons map_Suc_upt del: upt_Suc)
  show ?case
  proof (cases "x \<in> S")
    case True
    then have "\<And>y. y \<notin> S \<Longrightarrow> y \<noteq> x" by auto
    with True show ?thesis
      unfolding upt by (simp add: Cons.IH filter_map comp_def cong: conj_cong)
  next
    case False
    then show ?thesis
      unfolding upt by (simp add: Cons.IH filter_map comp_def conj_ac)
  qed
qed

lemma first_seen_unseen: "first_seen xs = unseen {} xs"
  by (simp add: first_seen_def unseen_index)

lemma set_unseen: "set (unseen S xs) = set xs - S"
  by (induction xs arbitrary: S) auto

lemma distinct_unseen: "distinct (unseen S xs)"
  by (induction xs arbitrary: S) (auto simp: set_unseen)

lemma unseen_append: "unseen S (xs @ ys) = unseen S xs @ unseen (S \<union> set xs) ys"
  by (induction xs arbitrary: S) (auto simp: insert_absorb)

lemma unseen_filter: "unseen (S \<union> T) xs = filter (\<lambda>u. u \<notin> T) (unseen S xs)"
proof (induction xs arbitrary: S)
  case Nil
  show ?case by simp
next
  case (Cons x xs)
  have "unseen (insert x (S \<union> T)) xs = filter (\<lambda>u. u \<notin> T) (unseen (insert x S) xs)"
    using Cons.IH[of "insert x S"] by simp
  moreover have "x \<in> T \<Longrightarrow> x \<notin> S \<Longrightarrow> unseen (S \<union> T) xs = filter (\<lambda>u. u \<notin> T) (unseen (insert x S) xs)"
  proof -
    assume "x \<in> T" "x \<notin> S"
    then have "S \<union> T = insert x S \<union> T" by auto
    then show ?thesis using Cons.IH[of "insert x S"] by simp
  qed
  ultimately show ?case
    by (auto simp: Cons.IH)
qed

lemma first_seen_append:
  "first_seen (xs @ ys) = first_seen xs @ filter (\<lambda>u. u \<notin> set xs) (first_seen ys)"
  using unseen_filter[of "{}" "set xs" ys]
  by (simp add: first_seen_unseen unseen_append)

section \<open>What the two patterns match\<close>


























section \<open>The loop over the references\<close>

lemma item_body_Inr:
  assumes "item_body L W ind resd index url item w = (Inr (item', ok), w')"
  shows "item_index item' = item_index item \<and> item_url item' = item_url item
         \<and> item_status item' = (if ok then Ok else Failed)"
  using assms
  by (auto simp: item_body_def Let_def split: sum.splits prod.splits)

lemma process_item_fields:
  assumes "process_item L W ind resd index url w = (item, ok, w')"
  shows "item_index item = index" and "item_url item = url"
    and "item_status item = (if ok then Ok else Failed)"
  using assms
  by (auto simp: process_item_def Let_def split: sum.splits prod.splits dest!: item_body_Inr)

lemma process_items_urls:
  "map item_url (items (fst (process_items L W ind resd index urls m w)))
     = map item_url (items m) @ urls"
  by (induction urls arbitrary: index m w)
     (auto split: prod.splits dest: process_item_fields)

lemma process_items_indices:
  "map item_index (items (fst (process_items L W ind resd index urls m w)))
     = map item_index (items m) @ [index ..< index + length urls]"
proof (induction urls arbitrary: index m w)
  case Nil
  show ?case by simp
next
  case (Cons u urls)
  obtain item ok w' where step: "process_item L W ind resd index u w = (item, ok, w')"
    by (cases "process_item L W ind resd index u w") auto
  have idx: "item_index item = index"
    by (rule process_item_fields(1)[OF step])
  have "[index ..< index + length (u # urls)] = index # [Suc index ..< Suc index + length urls]"
    by (simp add: upt_conv_Cons del: upt_Suc)
  then show ?case
    using step idx by (simp add: Cons.IH del: upt_Suc)
qed

lemma process_items_total:
  "total_images (fst (process_items L W ind resd index urls m w)) = total_images m"
  by (induction urls arbitrary: index m w) (auto split: prod.splits)

lemma process_items_processed:
  "processed_images (fst (process_items L W ind resd index urls m w))
     + length (filter (\<lambda>it. item_status it = Ok) (items m))
   = processed_images m
     + length (filter (\<lambda>it. item_status it = Ok)
         (items (fst (process_items L W ind resd index urls m w))))"
proof (induction urls arbitrary: index m w)
  case Nil
  show ?case by simp
next
  case (Cons u urls)
  obtain item ok w' where step: "process_item L W ind resd index u w = (item, ok, w')"
    by (cases "process_item L W ind resd index u w") auto
  let ?m' = "m\<lparr>processed_images := (if ok then processed_images m + 1 else processed_images m),
                items := items m @ [item]\<rparr>"
  have st: "item_status item = (if ok then Ok else Failed)"
    by (rule process_item_fields(3)[OF step])
  have "processed_images ?m' + length (filter (\<lambda>it. item_status it = Ok) (items m))
          = processed_images m + length (filter (\<lambda>it. item_status it = Ok) (items ?m'))"
    using st by simp
  with Cons.IH[of "index + 1" ?m' w'] show ?case
    using step by simp
qed

lemma process_items_status:
  assumes "\<forall>it \<in> set (items m). item_status it \<noteq> Skipped"
  shows "\<forall>it \<in> set (items (fst (process_items L W ind resd index urls m w))).
           item_status it \<noteq> Skipped"
  using assms
proof (induction urls arbitrary: index m w)
  case Nil
  then show ?case by simp
next
  case (Cons u urls)
  show ?case
  proof (cases "process_item L W ind resd index u w")
    case (fields item ok w')
    have "item_status item \<noteq> Skipped"
      using process_item_fields(3)[OF fields] by simp
    then have "\<forall>it \<in> set (items (m\<lparr>processed_images :=
                 (if ok then processed_images m + 1 else processed_images m),
               items := items m @ [item]\<rparr>)). item_status it \<noteq> Skipped"
      using Cons.prems by simp
    from Cons.IH[OF this] fields show ?thesis
      by simp
  qed
qed

lemma main_Inr:
  assumes "main L W a w = (Inr (rc, m), w')"
  obtains body w1 urls w3 w4 where
    "read_text W (Path (arg_issue_body_file a)) w = (Inr body, w1)"
    "resolve_urls L a body = Inr urls"
    "rc = 0"
    "process_items L W (Div (Path (arg_output_dir a)) (ustr_of ''inputs''))
        (Div (Path (arg_output_dir a)) (ustr_of ''results'')) 1 urls
        \<lparr>issue_number = arg_issue_number a, total_images = length urls,
         processed_images = 0, items = []\<rparr> w3 = (m, w4)"
  using assms
  by (auto simp: main_def Let_def split: sum.splits prod.splits)

lemma main_manifest:
  assumes "main L W a w = (Inr (rc, m), w')"
  obtains body w1 urls w3 where
    "read_text W (Path (arg_issue_body_file a)) w = (Inr body, w1)"
    "resolve_urls L a body = Inr urls"
    "m = fst (process_items L W (Div (Path (arg_output_dir a)) (ustr_of ''inputs''))
        (Div (Path (arg_output_dir a)) (ustr_of ''results'')) 1 urls
        \<lparr>issue_number = arg_issue_number a, total_images = length urls,
         processed_images = 0, items = []\<rparr> w3)"
proof -
  from assms obtain body w1 urls w3 w4 where
    "read_text W (Path (arg_issue_body_file a)) w = (Inr body, w1)"
    "resolve_urls L a body = Inr urls"
    "process_items L W (Div (Path (arg_output_dir a)) (ustr_of ''inputs''))
        (Div (Path (arg_output_dir a)) (ustr_of ''results'')) 1 urls
        \<lparr>issue_number = arg_issue_number a, total_images = length urls,
         processed_images = 0, items = []\<rparr> w3 = (m, w4)"
    by (rule main_Inr)
  then show ?thesis
    using that by (metis fst_conv)
qed



lemma main_reaches_write:
  assumes "read_text W (Path (arg_issue_body_file a)) w = (Inr body, w1)"
    and "resolve_urls L a body = Inr urls"
    and "mkdir W (Div (Path (arg_output_dir a)) (ustr_of ''inputs'')) w1 = (Inr (), w2)"
    and "mkdir W (Div (Path (arg_output_dir a)) (ustr_of ''results'')) w2 = (Inr (), w3)"
    and "process_items L W (Div (Path (arg_output_dir a)) (ustr_of ''inputs''))
           (Div (Path (arg_output_dir a)) (ustr_of ''results'')) 1 urls
           \<lparr>issue_number = arg_issue_number a, total_images = length urls,
            processed_images = 0, items = []\<rparr> w3 = (m, w4)"
    and "write_text W (Div (Path (arg_output_dir a)) (ustr_of ''manifest.json''))
           (json_dumps L m) w4 = (Inr (), w5)"
  shows "main L W a w = (Inr (0, m), w5)"
  using assms by (simp add: main_def)

lemma process_item_new_item:
  "process_item L W ind resd index url w =
     (case item_body L W ind resd index url (new_item index url) w of
        (Inr (item', ok), w') \<Rightarrow> (item', ok, w')
      | (Inl e, w') \<Rightarrow> (failed_item index url e, False, w'))"
  by (simp add: process_item_def new_item_def failed_item_def Let_def
      split: sum.splits prod.splits)

lemma item_body_paths:
  "item_body L W ind resd index url item w =
     (case infer_extension L url None of
        Inl e \<Rightarrow> (Inl e, w)
      | Inr ext \<Rightarrow>
          (case download_image W url (input_path_of ind index ext) w of
             (Inl e, w1) \<Rightarrow> (Inl e, w1)
           | (Inr _, w1) \<Rightarrow>
               (case run_main L W (input_path_of ind index ext) (output_path_of resd index) w1 of
                  (Inl e, w2) \<Rightarrow> (Inl e, w2)
                | (Inr (ok, msg), w2) \<Rightarrow>
                    (Inr (item\<lparr>item_input := Some (path_str L (input_path_of ind index ext)),
                               item_output := Some (path_str L (output_path_of resd index)),
                               item_status := (if ok then Ok else Failed),
                               item_log := Some msg\<rparr>, ok), w2))))"
  by (simp add: item_body_def input_path_of_def output_path_of_def Let_def
      split: sum.splits prod.splits)

lemma item_exception_caught:
  assumes "(infer_extension L url None = Inl e \<and> w' = w)
     \<or> (\<exists>ext. infer_extension L url None = Inr ext
           \<and> download_image W url (input_path_of ind index ext) w = (Inl e, w'))
     \<or> (\<exists>ext w1. infer_extension L url None = Inr ext
           \<and> download_image W url (input_path_of ind index ext) w = (Inr (), w1)
           \<and> run_main L W (input_path_of ind index ext) (output_path_of resd index) w1
               = (Inl e, w'))"
  shows "process_item L W ind resd index url w = (failed_item index url e, False, w')"
  using assms
  by (auto simp: process_item_new_item item_body_paths)

lemma process_items_append:
  "process_items L W ind resd index (xs @ ys) m w =
     (case process_items L W ind resd index xs m w of
        (m1, w1) \<Rightarrow> process_items L W ind resd (index + length xs) ys m1 w1)"
  by (induction xs arbitrary: index m w) (auto split: prod.splits)

lemma process_items_length:
  "length (items (fst (process_items L W ind resd index urls m w)))
     = length (items m) + length urls"
  by (induction urls arbitrary: index m w) (auto split: prod.splits)

lemma process_items_extends:
  "\<exists>ys. items (fst (process_items L W ind resd index urls m w)) = items m @ ys"
proof (induction urls arbitrary: index m w)
  case Nil
  show ?case by simp
next
  case (Cons u urls)
  obtain item ok w' where step: "process_item L W ind resd index u w = (item, ok, w')"
    by (cases "process_item L W ind resd index u w") auto
  let ?m' = "m\<lparr>processed_images := (if ok then processed_images m + 1 else processed_images m),
                items := items m @ [item]\<rparr>"
  from Cons.IH[of "index + 1" ?m' w'] obtain ys where
    "items (fst (process_items L W ind resd (index + 1) urls ?m' w')) = items ?m' @ ys"
    by blast
  then have "items (fst (process_items L W ind resd index (u # urls) m w)) = items m @ (item # ys)"
    using step by simp
  then show ?case by blast
qed

lemma process_items_prefix:
  "take (length (items m)) (items (fst (process_items L W ind resd index urls m w))) = items m"
  using process_items_extends[of L W ind resd index urls m w] by auto

lemma process_items_nth:
  assumes "k < length urls"
  shows "items (fst (process_items L W ind resd index urls m w)) ! (length (items m) + k)
     = fst (process_item L W ind resd (index + k) (urls ! k)
         (snd (process_items L W ind resd index (take k urls) m w)))"
proof -
  obtain mk wk where pre: "process_items L W ind resd index (take k urls) m w = (mk, wk)"
    by (cases "process_items L W ind resd index (take k urls) m w") auto
  obtain item ok w' where step: "process_item L W ind resd (index + k) (urls ! k) wk = (item, ok, w')"
    by (cases "process_item L W ind resd (index + k) (urls ! k) wk") auto
  let ?m' = "mk\<lparr>processed_images := (if ok then processed_images mk + 1 else processed_images mk),
                 items := items mk @ [item]\<rparr>"
  have split: "urls = take k urls @ (urls ! k) # drop (Suc k) urls"
    using assms by (simp add: id_take_nth_drop)
  have lk: "length (items mk) = length (items m) + k"
    using process_items_length[of L W ind resd index "take k urls" m w] pre assms by simp
  have "process_items L W ind resd index urls m w
          = process_items L W ind resd (index + k + 1) (drop (Suc k) urls) ?m' w'"
    using assms pre step
    by (subst split, subst process_items_append) (simp add: min_def)
  then have "take (Suc (length (items mk))) (items (fst (process_items L W ind resd index urls m w)))
               = items mk @ [item]"
    using process_items_prefix[of ?m' L W ind resd "index + k + 1" "drop (Suc k) urls" w']
    by simp
  then have "take (Suc (length (items mk))) (items (fst (process_items L W ind resd index urls m w)))
               ! length (items mk) = item"
    by simp
  then have "items (fst (process_items L W ind resd index urls m w)) ! length (items mk) = item"
    by simp
  then show ?thesis
    using pre step lk by simp
qed

lemma run_main_command:
  "run_main L W input_path output_path w =
     (case subprocess_run W (command_of L input_path output_path) w of
        (Inl e, w1) \<Rightarrow> (Inl e, w1)
      | (Inr result, w1) \<Rightarrow>
          (case (if returncode result = 0 then path_exists W output_path w1 else Inr False) of
             Inl e \<Rightarrow> (Inl e, w1)
           | Inr ok \<Rightarrow> (Inr (ok, strip (or_empty (stdout result) @ or_empty (stderr result))), w1)))"
  by (simp add: run_main_def command_of_def Let_def split: sum.splits prod.splits)

lemma run_main_success_iff:
  "(\<exists>msg. run_main L W input_path output_path w = (Inr (True, msg), w'))
     = (\<exists>result. subprocess_run W (command_of L input_path output_path) w = (Inr result, w')
          \<and> returncode result = 0 \<and> path_exists W output_path w' = Inr True)"
  by (auto simp: run_main_command split: sum.splits prod.splits if_splits)

lemma process_item_ok_iff:
  "(item_status (fst (process_item L W ind resd index url w)) = Ok)
     = (\<exists>ext w1 msg w2. infer_extension L url None = Inr ext
          \<and> download_image W url (input_path_of ind index ext) w = (Inr (), w1)
          \<and> run_main L W (input_path_of ind index ext) (output_path_of resd index) w1
              = (Inr (True, msg), w2))"
  by (auto simp: process_item_new_item item_body_paths failed_item_def
      split: sum.splits prod.splits if_splits)

section \<open>The sample run\<close>

lemmas regex_defs = extract_image_urls_def findall_def md_match_def html_match_def html_tail_def
  url_group_def scheme_def ustr_of_def ieq_def quote_def md_class_def is_space_def

lemma sample_extract:
  "extract_image_urls sample_issue_body
     = [ustr_of ''http://h/a.JPG'', ustr_of ''https://h/c.png'', ustr_of ''http://h/b'']"
  by (simp add: sample_issue_body_def regex_defs)

lemma sample_run:
 "main sample_lib sample_world sample_args [ustr_of ''issue.md'']
   = (Inr (0, sample_manifest),
      [ustr_of ''out/manifest.json'', ustr_of ''out/inputs/input_3.png'',
       ustr_of ''out/results/output_1.png'', ustr_of ''out/inputs/input_1.jpg'',
       ustr_of ''out/results'', ustr_of ''out/inputs'', ustr_of ''issue.md''])"
  by (simp add: main_def resolve_urls_def sample_extract sample_args_def sample_world_def sample_lib_def
      process_item_def item_body_def infer_extension_def download_image_def run_main_def
      sample_manifest_def IMAGE_EXTS_def sample_suffix_def ascii_lower_def or_empty_def strip_def
      is_space_def str_nat.simps ustr_of_def Let_def)

lemma sample_run_supplied:
  "main sample_lib sample_world (sample_args\<lparr>arg_urls_json := sample_urls_json\<rparr>)
       [ustr_of ''issue.md'']
     = (Inr (0,
          \<lparr>issue_number = ustr_of ''7'', total_images = 2, processed_images = 0,
           items =
             [\<lparr>item_index = 1, item_url = ustr_of ''http://h/x.png'', item_status = Failed,
               item_input = Some (ustr_of ''out/inputs/input_1.png''),
               item_output = Some (ustr_of ''out/results/output_1.png''),
               item_log = Some []\<rparr>,
              \<lparr>item_index = 2, item_url = ustr_of ''http://h/x.png'', item_status = Failed,
               item_input = Some (ustr_of ''out/inputs/input_2.png''),
               item_output = Some (ustr_of ''out/results/output_2.png''),
               item_log = Some []\<rparr>]\<rparr>),
        [ustr_of ''out/manifest.json'', ustr_of ''out/inputs/input_2.png'',
         ustr_of ''out/inputs/input_1.png'', ustr_of ''out/results'', ustr_of ''out/inputs'',
         ustr_of ''issue.md''])"
  by (simp add: main_def resolve_urls_def sample_args_def sample_world_def sample_lib_def
      sample_urls_json_def
      process_item_def item_body_def infer_extension_def download_image_def run_main_def
      IMAGE_EXTS_def sample_suffix_def ascii_lower_def or_empty_def strip_def
      is_space_def str_nat.simps ustr_of_def Let_def)

lemma sample_suffix_jpg:
  "str_lower sample_lib (path_suffix sample_lib (ustr_of ''/a.JPG'')) = ustr_of ''.jpg''"
  by (simp add: sample_lib_def sample_suffix_def ascii_lower_def ustr_of_def)

lemma sample_suffix_b:
  "str_lower sample_lib (path_suffix sample_lib (ustr_of ''/b'')) = []"
  by (simp add: sample_lib_def sample_suffix_def ascii_lower_def ustr_of_def)

lemmas sample_defs = sample_world_def sample_lib_def
  process_item_def item_body_def infer_extension_def download_image_def run_main_def
  IMAGE_EXTS_def sample_suffix_def ascii_lower_def or_empty_def strip_def
  is_space_def str_nat.simps ustr_of_def Let_def input_path_of_def output_path_of_def
  command_of_def failed_item_def

section \<open>The claims\<close>

text \<open>
  Claim C1. In every run that writes a manifest, the items of the manifest are, in order,
  one for each reference of the resolved list (the supplied list, or the list the
  extractor found): the URLs of the items are that list, their indices are
  \<open>1, 2, ...\<close> in that order, and the number of items, \<open>total_images\<close> and the number
  of references are equal. The library and the world are arbitrary, so any number of
  items may fail.
\<close>

theorem manifest_items_follow_references:
  assumes "main L W a w = (Inr (rc, m), w')"
  shows "\<exists>body w1 urls.
           read_text W (Path (arg_issue_body_file a)) w = (Inr body, w1)
           \<and> resolve_urls L a body = Inr urls
           \<and> map item_url (items m) = urls
           \<and> map item_index (items m) = [1 ..< 1 + length urls]
           \<and> length (items m) = total_images m
           \<and> total_images m = length urls"
proof -
  from assms obtain body w1 urls w3 where
    rd: "read_text W (Path (arg_issue_body_file a)) w = (Inr body, w1)"
    and rs: "resolve_urls L a body = Inr urls"
    and m: "m = fst (process_items L W (Div (Path (arg_output_dir a)) (ustr_of ''inputs''))
        (Div (Path (arg_output_dir a)) (ustr_of ''results'')) 1 urls
        \<lparr>issue_number = arg_issue_number a, total_images = length urls,
         processed_images = 0, items = []\<rparr> w3)"
    by (rule main_manifest)
  have u: "map item_url (items m) = urls"
    unfolding m by (simp add: process_items_urls)
  have i: "map item_index (items m) = [1 ..< 1 + length urls]"
    unfolding m by (simp add: process_items_indices)
  have t: "total_images m = length urls"
    unfolding m by (simp add: process_items_total)
  have l: "length (items m) = length urls"
    unfolding m by (simp add: process_items_length)
  from rd rs u i t l show ?thesis by auto
qed

theorem manifest_items_follow_references_witness:
  "main sample_lib sample_world sample_args [ustr_of ''issue.md'']
     = (Inr (0, sample_manifest),
        [ustr_of ''out/manifest.json'', ustr_of ''out/inputs/input_3.png'',
         ustr_of ''out/results/output_1.png'', ustr_of ''out/inputs/input_1.jpg'',
         ustr_of ''out/results'', ustr_of ''out/inputs'', ustr_of ''issue.md''])
   \<and> map item_url (items sample_manifest)
       = [ustr_of ''http://h/a.JPG'', ustr_of ''https://h/c.png'', ustr_of ''http://h/b'']
   \<and> map item_index (items sample_manifest) = [1, 2, 3]
   \<and> length (items sample_manifest) = 3 \<and> total_images sample_manifest = 3"
  using sample_run manifest_items_follow_references [OF sample_run]
  by (simp add: sample_manifest_def)

text \<open>
  Claim C2. An exception raised while an item is processed, by the extension inference,
  by the fetch or by the transform invocation, is caught in that turn of the loop: the
  item appended has the status \<open>failed\<close> and the message of the exception as its log,
  and no input or output; the log is empty only if the message is, which that of a
  timeout is not. The loop goes on: whatever happens to the other items, the item at each
  position of the manifest is the one its own turn produces, in the state the turns
  before it left, and the manifest gains one item for each reference. No item can end
  the run: once the issue body is read, the references are resolved and the two
  directories are made, the run ends with the exit status 0 and the manifest of the
  loop, provided the write of \<^verbatim>\<open>manifest.json\<close> itself succeeds.
\<close>

theorem item_exception_is_caught:
  "((infer_extension L url None = Inl e \<and> w' = w)
     \<or> (\<exists>ext. infer_extension L url None = Inr ext
           \<and> download_image W url (input_path_of ind index ext) w = (Inl e, w'))
     \<or> (\<exists>ext w1. infer_extension L url None = Inr ext
           \<and> download_image W url (input_path_of ind index ext) w = (Inr (), w1)
           \<and> run_main L W (input_path_of ind index ext) (output_path_of resd index) w1
               = (Inl e, w'))
    \<longrightarrow> process_item L W ind resd index url w = (failed_item index url e, False, w'))
   \<and> (\<forall>k < length urls.
         items (fst (process_items L W ind resd index urls m w)) ! (length (items m) + k)
           = fst (process_item L W ind resd (index + k) (urls ! k)
               (snd (process_items L W ind resd index (take k urls) m w))))
   \<and> length (items (fst (process_items L W ind resd index urls m w)))
       = length (items m) + length urls
   \<and> (read_text W (Path (arg_issue_body_file a)) v = (Inr body, v1)
        \<and> resolve_urls L a body = Inr refs
        \<and> mkdir W (Div (Path (arg_output_dir a)) (ustr_of ''inputs'')) v1 = (Inr (), v2)
        \<and> mkdir W (Div (Path (arg_output_dir a)) (ustr_of ''results'')) v2 = (Inr (), v3)
        \<and> process_items L W (Div (Path (arg_output_dir a)) (ustr_of ''inputs''))
              (Div (Path (arg_output_dir a)) (ustr_of ''results'')) 1 refs
              \<lparr>issue_number = arg_issue_number a, total_images = length refs,
               processed_images = 0, items = []\<rparr> v3 = (mf, v4)
        \<and> write_text W (Div (Path (arg_output_dir a)) (ustr_of ''manifest.json''))
              (json_dumps L mf) v4 = (Inr (), v5)
       \<longrightarrow> main L W a v = (Inr (0, mf), v5))"
proof -
  have caught: "(infer_extension L url None = Inl e \<and> w' = w)
     \<or> (\<exists>ext. infer_extension L url None = Inr ext
           \<and> download_image W url (input_path_of ind index ext) w = (Inl e, w'))
     \<or> (\<exists>ext w1. infer_extension L url None = Inr ext
           \<and> download_image W url (input_path_of ind index ext) w = (Inr (), w1)
           \<and> run_main L W (input_path_of ind index ext) (output_path_of resd index) w1
               = (Inl e, w'))
    \<longrightarrow> process_item L W ind resd index url w = (failed_item index url e, False, w')"
    using item_exception_caught[of L url e w' w W ind index resd] by blast
  have each: "\<forall>k < length urls.
         items (fst (process_items L W ind resd index urls m w)) ! (length (items m) + k)
           = fst (process_item L W ind resd (index + k) (urls ! k)
               (snd (process_items L W ind resd index (take k urls) m w)))"
    by (simp add: process_items_nth)
  have len: "length (items (fst (process_items L W ind resd index urls m w)))
       = length (items m) + length urls"
    by (rule process_items_length)
  have run: "read_text W (Path (arg_issue_body_file a)) v = (Inr body, v1)
        \<and> resolve_urls L a body = Inr refs
        \<and> mkdir W (Div (Path (arg_output_dir a)) (ustr_of ''inputs'')) v1 = (Inr (), v2)
        \<and> mkdir W (Div (Path (arg_output_dir a)) (ustr_of ''results'')) v2 = (Inr (), v3)
        \<and> process_items L W (Div (Path (arg_output_dir a)) (ustr_of ''inputs''))
              (Div (Path (arg_output_dir a)) (ustr_of ''results'')) 1 refs
              \<lparr>issue_number = arg_issue_number a, total_images = length refs,
               processed_images = 0, items = []\<rparr> v3 = (mf, v4)
        \<and> write_text W (Div (Path (arg_output_dir a)) (ustr_of ''manifest.json''))
              (json_dumps L mf) v4 = (Inr (), v5)
       \<longrightarrow> main L W a v = (Inr (0, mf), v5)"
    using main_reaches_write[of W a v body v1 L refs v2 v3 mf v4 v5] by blast
  from caught each len run show ?thesis
    by (intro conjI)
qed

theorem item_exception_is_caught_witness:
  "download_image sample_world (ustr_of ''https://h/c.png'')
       (input_path_of (Div (Path (ustr_of ''out'')) (ustr_of ''inputs'')) 2 (ustr_of ''.png''))
       [ustr_of ''issue.md'']
     = (Inl (Exception (ustr_of ''timed out'')), [ustr_of ''issue.md''])
   \<and> process_item sample_lib sample_world
         (Div (Path (ustr_of ''out'')) (ustr_of ''inputs''))
         (Div (Path (ustr_of ''out'')) (ustr_of ''results'')) 2 (ustr_of ''https://h/c.png'')
         [ustr_of ''issue.md'']
       = (\<lparr>item_index = 2, item_url = ustr_of ''https://h/c.png'', item_status = Failed,
           item_input = None, item_output = None, item_log = Some (ustr_of ''timed out'')\<rparr>,
          False, [ustr_of ''issue.md''])
   \<and> ustr_of ''timed out'' \<noteq> []
   \<and> process_items sample_lib sample_world
         (Div (Path (ustr_of ''out'')) (ustr_of ''inputs''))
         (Div (Path (ustr_of ''out'')) (ustr_of ''results'')) 1
         [ustr_of ''http://h/a.JPG'', ustr_of ''https://h/c.png'', ustr_of ''http://h/b'']
         \<lparr>issue_number = ustr_of ''7'', total_images = 3, processed_images = 0, items = []\<rparr>
         [ustr_of ''out/results'', ustr_of ''out/inputs'', ustr_of ''issue.md'']
       = (sample_manifest,
          [ustr_of ''out/inputs/input_3.png'', ustr_of ''out/results/output_1.png'',
           ustr_of ''out/inputs/input_1.jpg'', ustr_of ''out/results'', ustr_of ''out/inputs'',
           ustr_of ''issue.md''])
   \<and> map item_status (items sample_manifest) = [Ok, Failed, Failed]
   \<and> length (items sample_manifest) = 3
   \<and> main sample_lib sample_world sample_args [ustr_of ''issue.md'']
       = (Inr (0, sample_manifest),
          [ustr_of ''out/manifest.json'', ustr_of ''out/inputs/input_3.png'',
           ustr_of ''out/results/output_1.png'', ustr_of ''out/inputs/input_1.jpg'',
           ustr_of ''out/results'', ustr_of ''out/inputs'', ustr_of ''issue.md''])"
proof -
  let ?ind = "Div (Path (ustr_of ''out'')) (ustr_of ''inputs'')"
  let ?resd = "Div (Path (ustr_of ''out'')) (ustr_of ''results'')"
  let ?u = "ustr_of ''https://h/c.png''"
  let ?e = "Exception (ustr_of ''timed out'')"
  let ?w = "[ustr_of ''issue.md'']"
  let ?w3 = "[ustr_of ''out/results'', ustr_of ''out/inputs'', ustr_of ''issue.md'']"
  let ?w4 = "[ustr_of ''out/inputs/input_3.png'', ustr_of ''out/results/output_1.png'',
           ustr_of ''out/inputs/input_1.jpg'', ustr_of ''out/results'', ustr_of ''out/inputs'',
           ustr_of ''issue.md'']"
  let ?urls = "[ustr_of ''http://h/a.JPG'', ustr_of ''https://h/c.png'', ustr_of ''http://h/b'']"
  let ?m0 = "\<lparr>issue_number = ustr_of ''7'', total_images = 3, processed_images = 0, items = []\<rparr>"
  have ie: "infer_extension sample_lib ?u None = Inr (ustr_of ''.png'')"
    by (simp add: sample_defs)
  have dl: "download_image sample_world ?u (input_path_of ?ind 2 (ustr_of ''.png'')) ?w
              = (Inl ?e, ?w)"
    by (simp add: sample_defs)
  have hyp: "(infer_extension sample_lib ?u None = Inl ?e \<and> ?w = ?w)
     \<or> (\<exists>ext. infer_extension sample_lib ?u None = Inr ext
           \<and> download_image sample_world ?u (input_path_of ?ind 2 ext) ?w = (Inl ?e, ?w))
     \<or> (\<exists>ext w1. infer_extension sample_lib ?u None = Inr ext
           \<and> download_image sample_world ?u (input_path_of ?ind 2 ext) ?w = (Inr (), w1)
           \<and> run_main sample_lib sample_world (input_path_of ?ind 2 ext)
                 (output_path_of ?resd 2) w1 = (Inl ?e, ?w))"
    using ie dl by blast
  have ne: "ustr_of ''timed out'' \<noteq> []"
    by (simp add: ustr_of_def)
  have rd: "read_text sample_world (Path (arg_issue_body_file sample_args)) ?w
              = (Inr sample_issue_body, ?w)"
    by (simp add: sample_world_def sample_args_def)
  have rs: "resolve_urls sample_lib sample_args sample_issue_body = Inr ?urls"
    by (simp add: resolve_urls_def sample_args_def sample_extract)
  have m1: "mkdir sample_world (Div (Path (arg_output_dir sample_args)) (ustr_of ''inputs'')) ?w
              = (Inr (), [ustr_of ''out/inputs'', ustr_of ''issue.md''])"
    and m2: "mkdir sample_world (Div (Path (arg_output_dir sample_args)) (ustr_of ''results''))
               [ustr_of ''out/inputs'', ustr_of ''issue.md''] = (Inr (), ?w3)"
    by (simp_all add: sample_world_def sample_args_def ustr_of_def)
  have lp: "process_items sample_lib sample_world ?ind ?resd 1 ?urls ?m0 ?w3
              = (sample_manifest, ?w4)"
    by (simp add: sample_defs sample_manifest_def)
  have od: "arg_output_dir sample_args = ustr_of ''out''"
    "arg_issue_number sample_args = ustr_of ''7''"
    by (simp_all add: sample_args_def)
  have l3: "length ?urls = 3"
    by simp
  have lp': "process_items sample_lib sample_world
           (Div (Path (arg_output_dir sample_args)) (ustr_of ''inputs''))
           (Div (Path (arg_output_dir sample_args)) (ustr_of ''results'')) 1 ?urls
           \<lparr>issue_number = arg_issue_number sample_args, total_images = length ?urls,
            processed_images = 0, items = []\<rparr> ?w3 = (sample_manifest, ?w4)"
    unfolding od l3 by (rule lp)
  have wr: "write_text sample_world
           (Div (Path (arg_output_dir sample_args)) (ustr_of ''manifest.json''))
           (json_dumps sample_lib sample_manifest) ?w4
         = (Inr (), ustr_of ''out/manifest.json'' # ?w4)"
    by (simp add: sample_world_def sample_args_def ustr_of_def)
  note t = item_exception_is_caught [where L = sample_lib and W = sample_world and url = ?u
      and e = ?e and w = ?w and w' = ?w and ind = ?ind and resd = ?resd and index = 2
      and a = sample_args and v = ?w and body = sample_issue_body and ?v1.0 = ?w
      and refs = ?urls and ?v2.0 = "[ustr_of ''out/inputs'', ustr_of ''issue.md'']"
      and ?v3.0 = ?w3 and mf = sample_manifest and ?v4.0 = ?w4
      and ?v5.0 = "ustr_of ''out/manifest.json'' # ?w4"]
  from t hyp have caught: "process_item sample_lib sample_world ?ind ?resd 2 ?u ?w
      = (failed_item 2 ?u ?e, False, ?w)"
    by blast
  from t rd rs m1 m2 lp' wr
  have run: "main sample_lib sample_world sample_args ?w
      = (Inr (0, sample_manifest), ustr_of ''out/manifest.json'' # ?w4)"
    by blast
  have sts: "map item_status (items sample_manifest) = [Ok, Failed, Failed]"
    "length (items sample_manifest) = 3"
    by (simp_all add: sample_manifest_def)
  from dl caught ne lp sts run show ?thesis
    by (simp add: failed_item_def)
qed

text \<open>
  Claim C3. In every written manifest \<open>processed_images\<close> is the number of items whose
  status is \<open>ok\<close>, and it is at most \<open>total_images\<close>.
\<close>

theorem processed_images_counts_ok:
  assumes "main L W a w = (Inr (rc, m), w')"
  shows "processed_images m = length (filter (\<lambda>it. item_status it = Ok) (items m))
         \<and> processed_images m \<le> total_images m"
proof -
  from assms obtain body w1 urls w3 where
    m: "m = fst (process_items L W (Div (Path (arg_output_dir a)) (ustr_of ''inputs''))
        (Div (Path (arg_output_dir a)) (ustr_of ''results'')) 1 urls
        \<lparr>issue_number = arg_issue_number a, total_images = length urls,
         processed_images = 0, items = []\<rparr> w3)"
    by (rule main_manifest)
  have p: "processed_images m = length (filter (\<lambda>it. item_status it = Ok) (items m))"
    unfolding m
    using process_items_processed[of L W "Div (Path (arg_output_dir a)) (ustr_of ''inputs'')"
        "Div (Path (arg_output_dir a)) (ustr_of ''results'')" 1 urls
        "\<lparr>issue_number = arg_issue_number a, total_images = length urls,
         processed_images = 0, items = []\<rparr>" w3]
    by simp
  have t: "total_images m = length urls"
    unfolding m by (simp add: process_items_total)
  have l: "length (items m) = length urls"
    unfolding m by (simp add: process_items_length)
  have "length (filter (\<lambda>it. item_status it = Ok) (items m)) \<le> length (items m)"
    by (rule length_filter_le)
  with p t l show ?thesis by simp
qed

theorem processed_images_counts_ok_witness:
  "main sample_lib sample_world sample_args [ustr_of ''issue.md'']
     = (Inr (0, sample_manifest),
        [ustr_of ''out/manifest.json'', ustr_of ''out/inputs/input_3.png'',
         ustr_of ''out/results/output_1.png'', ustr_of ''out/inputs/input_1.jpg'',
         ustr_of ''out/results'', ustr_of ''out/inputs'', ustr_of ''issue.md''])
   \<and> processed_images sample_manifest = 1
   \<and> length (filter (\<lambda>it. item_status it = Ok) (items sample_manifest)) = 1
   \<and> processed_images sample_manifest \<le> total_images sample_manifest"
  using sample_run processed_images_counts_ok [OF sample_run]
  by (simp add: sample_manifest_def)

text \<open>
  Claim C4. \<^verbatim>\<open>run_main\<close> reports success exactly when the child process returned
  the exit status 0 and the output path exists in the state the process left. An item
  gets the status \<open>ok\<close> exactly when nothing raised and \<^verbatim>\<open>run_main\<close> reported success;
  an exit status 0 with the output file missing gives an item with the status \<open>failed\<close>.
\<close>

theorem transform_success_needs_exit_and_output:
  "((\<exists>msg. run_main L W input_path output_path w = (Inr (True, msg), w'))
      = (\<exists>result. subprocess_run W (command_of L input_path output_path) w = (Inr result, w')
           \<and> returncode result = 0 \<and> path_exists W output_path w' = Inr True))
   \<and> ((item_status (fst (process_item L W ind resd index url w)) = Ok)
        = (\<exists>ext w1 msg w2. infer_extension L url None = Inr ext
             \<and> download_image W url (input_path_of ind index ext) w = (Inr (), w1)
             \<and> run_main L W (input_path_of ind index ext) (output_path_of resd index) w1
                 = (Inr (True, msg), w2)))
   \<and> (infer_extension L url None = Inr ext
        \<and> download_image W url (input_path_of ind index ext) w = (Inr (), w1)
        \<and> subprocess_run W
              (command_of L (input_path_of ind index ext) (output_path_of resd index)) w1
            = (Inr result, w2)
        \<and> returncode result = 0
        \<and> path_exists W (output_path_of resd index) w2 = Inr False
       \<longrightarrow> item_status (fst (process_item L W ind resd index url w)) = Failed)"
proof -
  have "item_status (fst (process_item L W ind resd index url w)) = Failed"
    if "infer_extension L url None = Inr ext"
      and "download_image W url (input_path_of ind index ext) w = (Inr (), w1)"
      and "subprocess_run W
              (command_of L (input_path_of ind index ext) (output_path_of resd index)) w1
            = (Inr result, w2)"
      and "returncode result = 0"
      and "path_exists W (output_path_of resd index) w2 = Inr False"
    using that by (simp add: process_item_new_item item_body_paths run_main_command)
  then show ?thesis
    using run_main_success_iff[of L W input_path output_path w w']
      process_item_ok_iff[of L W ind resd index url w]
    by blast
qed

theorem transform_success_needs_exit_and_output_witness:
  "subprocess_run sample_world
       (command_of sample_lib
          (input_path_of (Div (Path (ustr_of ''out'')) (ustr_of ''inputs'')) 3 (ustr_of ''.png''))
          (output_path_of (Div (Path (ustr_of ''out'')) (ustr_of ''results'')) 3))
       [ustr_of ''out/inputs/input_3.png'']
     = (Inr \<lparr>returncode = 0, stdout = Some [], stderr = Some []\<rparr>,
        [ustr_of ''out/inputs/input_3.png''])
   \<and> path_exists sample_world
         (output_path_of (Div (Path (ustr_of ''out'')) (ustr_of ''results'')) 3)
         [ustr_of ''out/inputs/input_3.png''] = Inr False
   \<and> item_status (fst (process_item sample_lib sample_world
         (Div (Path (ustr_of ''out'')) (ustr_of ''inputs''))
         (Div (Path (ustr_of ''out'')) (ustr_of ''results'')) 3 (ustr_of ''http://h/b'') []))
       = Failed"
proof -
  let ?ind = "Div (Path (ustr_of ''out'')) (ustr_of ''inputs'')"
  let ?resd = "Div (Path (ustr_of ''out'')) (ustr_of ''results'')"
  let ?u = "ustr_of ''http://h/b''"
  let ?w1 = "[ustr_of ''out/inputs/input_3.png'']"
  let ?res = "\<lparr>returncode = 0, stdout = Some [], stderr = Some []\<rparr>"
  have ie: "infer_extension sample_lib ?u None = Inr (ustr_of ''.png'')"
    by (simp add: sample_defs)
  have dl: "download_image sample_world ?u (input_path_of ?ind 3 (ustr_of ''.png'')) []
              = (Inr (), ?w1)"
    by (simp add: sample_defs)
  have sp: "subprocess_run sample_world
       (command_of sample_lib (input_path_of ?ind 3 (ustr_of ''.png'')) (output_path_of ?resd 3))
       ?w1 = (Inr ?res, ?w1)"
    by (simp add: sample_defs)
  have rc: "returncode ?res = 0" by simp
  have ex: "path_exists sample_world (output_path_of ?resd 3) ?w1 = Inr False"
    by (simp add: sample_defs)
  note t = transform_success_needs_exit_and_output
    [where L = sample_lib and W = sample_world and ind = ?ind and resd = ?resd and index = 3
       and url = ?u and w = "[]" and ext = "ustr_of ''.png''" and ?w1.0 = ?w1 and result = ?res
       and ?w2.0 = ?w1]
  from t ie dl sp rc ex
  have "item_status (fst (process_item sample_lib sample_world ?ind ?resd 3 ?u [])) = Failed"
    by blast
  with sp ex show ?thesis by simp
qed

text \<open>
  Claim C5. For every text, the result of the extractor is the list of the Markdown
  matches followed by the HTML matches, reduced to the first occurrence of each URL, in
  that order: it has no duplicate, it starts with the first occurrences among the
  Markdown matches, and the HTML matches add only the URLs that no Markdown match gave.
  The text of the scenario yields the single URL \<^verbatim>\<open>https://example.com/a.jpg\<close>.
\<close>

theorem extract_first_seen_markdown_first:
  "extract_image_urls t = first_seen (findall md_match t @ findall html_match t)
   \<and> distinct (extract_image_urls t)
   \<and> extract_image_urls t
       = first_seen (findall md_match t)
         @ filter (\<lambda>u. u \<notin> set (findall md_match t)) (first_seen (findall html_match t))
   \<and> extract_image_urls
         (ustr_of ''![img](https://example.com/a.jpg) <img src='https://example.com/a.jpg'>'')
       = [ustr_of ''https://example.com/a.jpg'']"
proof -
  have a: "extract_image_urls t = first_seen (findall md_match t @ findall html_match t)"
    by (simp add: extract_image_urls_def dedup_loop_unseen first_seen_unseen)
  have b: "distinct (extract_image_urls t)"
    by (simp add: extract_image_urls_def dedup_loop_unseen distinct_unseen)
  have c: "extract_image_urls
         (ustr_of ''![img](https://example.com/a.jpg) <img src='https://example.com/a.jpg'>'')
       = [ustr_of ''https://example.com/a.jpg'']"
    by (simp add: regex_defs)
  from a b c show ?thesis
    by (simp add: first_seen_append)
qed

theorem extract_first_seen_markdown_first_witness:
  "findall md_match sample_issue_body
     = [ustr_of ''http://h/a.JPG'', ustr_of ''https://h/c.png'', ustr_of ''http://h/a.JPG'']
   \<and> findall html_match sample_issue_body = [ustr_of ''http://h/b'']
   \<and> extract_image_urls sample_issue_body
       = [ustr_of ''http://h/a.JPG'', ustr_of ''https://h/c.png'', ustr_of ''http://h/b'']
   \<and> first_seen (findall md_match sample_issue_body @ findall html_match sample_issue_body)
       = [ustr_of ''http://h/a.JPG'', ustr_of ''https://h/c.png'', ustr_of ''http://h/b'']
   \<and> distinct (extract_image_urls sample_issue_body)"
proof -
  have md: "findall md_match sample_issue_body
     = [ustr_of ''http://h/a.JPG'', ustr_of ''https://h/c.png'', ustr_of ''http://h/a.JPG'']"
    by (simp add: sample_issue_body_def regex_defs)
  have html: "findall html_match sample_issue_body = [ustr_of ''http://h/b'']"
    by (simp add: sample_issue_body_def regex_defs)
  note t = extract_first_seen_markdown_first [of sample_issue_body]
  from t have fs: "first_seen (findall md_match sample_issue_body
        @ findall html_match sample_issue_body) = extract_image_urls sample_issue_body"
    by simp
  from t have d: "distinct (extract_image_urls sample_issue_body)"
    by blast
  show ?thesis
    unfolding fs using md html d sample_extract by simp
qed

text \<open>
  Claim C6, as it is worded, fails where \<^verbatim>\<open>urlparse\<close> rejects the URL: the extractor
  returns \<^verbatim>\<open>http://[::1/a.png\<close> from a Markdown image, \<^verbatim>\<open>urlparse\<close> raises
  \<^verbatim>\<open>ValueError("Invalid IPv6 URL")\<close> on it, and \<^verbatim>\<open>infer_extension\<close> raises the same
  instead of returning \<^verbatim>\<open>.png\<close>.
\<close>

theorem infer_extension_raises_counterexample:
  "extract_image_urls (ustr_of ''![x](http://[::1/a.png)'') = [ustr_of ''http://[::1/a.png'']
   \<and> urlparse_path checked_lib (ustr_of ''http://[::1/a.png'')
       = Inl (Exception (ustr_of ''Invalid IPv6 URL''))
   \<and> infer_extension checked_lib (ustr_of ''http://[::1/a.png'') None
       = Inl (Exception (ustr_of ''Invalid IPv6 URL''))
   \<and> infer_extension checked_lib (ustr_of ''http://[::1/a.png'') None
       \<noteq> Inr (ustr_of ''.png'')"
proof -
  have x: "extract_image_urls (ustr_of ''![x](http://[::1/a.png)'')
      = [ustr_of ''http://[::1/a.png'']"
    by (simp add: regex_defs)
  have u: "urlparse_path checked_lib (ustr_of ''http://[::1/a.png'')
      = Inl (Exception (ustr_of ''Invalid IPv6 URL''))"
    by (simp add: checked_lib_def checked_urlparse_path_def netloc_of_def ustr_of_def)
  then have i: "infer_extension checked_lib (ustr_of ''http://[::1/a.png'') None
      = Inl (Exception (ustr_of ''Invalid IPv6 URL''))"
    by (simp add: infer_extension_def)
  from x u i show ?thesis by simp
qed

text \<open>
  Claim C6, amended. When \<^verbatim>\<open>urlparse\<close> rejects the URL, \<^verbatim>\<open>infer_extension\<close> raises the
  exception of \<^verbatim>\<open>urlparse\<close>. When \<^verbatim>\<open>urlparse\<close> accepts it, with the path \<open>p\<close>:
  (a) when the lower-cased suffix of \<open>p\<close> is one of \<^verbatim>\<open>.png .jpg .jpeg .webp .bmp\<close>,
  the result is that lower-cased suffix; (b) otherwise, when a content type is given
  (a string that is not empty) and \<^verbatim>\<open>mimetypes.guess_extension\<close> maps its part before
  the first semicolon, stripped, to an extension whose lower-cased form is one of the
  five, the result is that lower-cased extension; (c) otherwise the result is
  \<^verbatim>\<open>.png\<close>.
\<close>

theorem infer_extension_order:
  "(urlparse_path L url = Inl e \<longrightarrow> infer_extension L url ct = Inl e)
   \<and> (urlparse_path L url = Inr p \<longrightarrow>
        (str_lower L (path_suffix L p) \<in> IMAGE_EXTS
           \<longrightarrow> infer_extension L url ct = Inr (str_lower L (path_suffix L p)))
        \<and> (str_lower L (path_suffix L p) \<notin> IMAGE_EXTS \<and> ct = Some c \<and> c \<noteq> []
             \<and> guess_extension L (strip (takeWhile (\<lambda>x. x \<noteq> 59) c)) = Some g
             \<and> g \<noteq> [] \<and> str_lower L g \<in> IMAGE_EXTS
           \<longrightarrow> infer_extension L url ct = Inr (str_lower L g))
        \<and> (str_lower L (path_suffix L p) \<notin> IMAGE_EXTS
             \<and> (ct = None \<or> ct = Some []
                 \<or> (\<exists>c'. ct = Some c'
                       \<and> (case guess_extension L (strip (takeWhile (\<lambda>x. x \<noteq> 59) c')) of
                             None \<Rightarrow> True
                           | Some g' \<Rightarrow> g' = [] \<or> str_lower L g' \<notin> IMAGE_EXTS)))
           \<longrightarrow> infer_extension L url ct = Inr (ustr_of ''.png'')))"
  by (auto simp: infer_extension_def Let_def split: option.splits)

theorem infer_extension_order_witness:
  "urlparse_path sample_lib (ustr_of ''http://h/a.JPG'') = Inr (ustr_of ''/a.JPG'')
   \<and> infer_extension sample_lib (ustr_of ''http://h/a.JPG'') None = Inr (ustr_of ''.jpg'')
   \<and> urlparse_path sample_lib (ustr_of ''http://h/b'') = Inr (ustr_of ''/b'')
   \<and> infer_extension sample_lib (ustr_of ''http://h/b'')
         (Some (ustr_of ''image/jpeg; charset=x'')) = Inr (ustr_of ''.jpg'')
   \<and> infer_extension sample_lib (ustr_of ''http://h/b'') None = Inr (ustr_of ''.png'')
   \<and> urlparse_path checked_lib (ustr_of ''http://[::1/a.png'')
       = Inl (Exception (ustr_of ''Invalid IPv6 URL''))
   \<and> infer_extension checked_lib (ustr_of ''http://[::1/a.png'')
         (Some (ustr_of ''image/jpeg; charset=x'')) = Inl (Exception (ustr_of ''Invalid IPv6 URL''))"
proof -
  have pa: "urlparse_path sample_lib (ustr_of ''http://h/a.JPG'') = Inr (ustr_of ''/a.JPG'')"
    and pb: "urlparse_path sample_lib (ustr_of ''http://h/b'') = Inr (ustr_of ''/b'')"
    by (simp_all add: sample_lib_def ustr_of_def)
  have pc: "urlparse_path checked_lib (ustr_of ''http://[::1/a.png'')
      = Inl (Exception (ustr_of ''Invalid IPv6 URL''))"
    by (simp add: checked_lib_def checked_urlparse_path_def netloc_of_def ustr_of_def)
  have jpg: "ustr_of ''.jpg'' \<in> IMAGE_EXTS" and nil: "[] \<notin> IMAGE_EXTS"
    by (simp_all add: IMAGE_EXTS_def ustr_of_def)
  have ct: "ustr_of ''image/jpeg; charset=x'' \<noteq> []"
    and g: "guess_extension sample_lib
              (strip (takeWhile (\<lambda>x. x \<noteq> 59) (ustr_of ''image/jpeg; charset=x'')))
            = Some (ustr_of ''.jpg'')"
    and gl: "ustr_of ''.jpg'' \<noteq> []"
      "str_lower sample_lib (ustr_of ''.jpg'') = ustr_of ''.jpg''"
    by (simp_all add: sample_lib_def strip_def is_space_def ascii_lower_def ustr_of_def)
  note a = infer_extension_order [where L = sample_lib and url = "ustr_of ''http://h/a.JPG''"
      and p = "ustr_of ''/a.JPG''" and ct = None]
  note b = infer_extension_order [where L = sample_lib and url = "ustr_of ''http://h/b''"
      and p = "ustr_of ''/b''" and ct = "Some (ustr_of ''image/jpeg; charset=x'')"
      and c = "ustr_of ''image/jpeg; charset=x''" and g = "ustr_of ''.jpg''"]
  note c = infer_extension_order [where L = sample_lib and url = "ustr_of ''http://h/b''"
      and p = "ustr_of ''/b''" and ct = None]
  note d = infer_extension_order [where L = checked_lib and url = "ustr_of ''http://[::1/a.png''"
      and e = "Exception (ustr_of ''Invalid IPv6 URL'')"
      and ct = "Some (ustr_of ''image/jpeg; charset=x'')"]
  from a pa jpg have 1: "infer_extension sample_lib (ustr_of ''http://h/a.JPG'') None
      = Inr (ustr_of ''.jpg'')"
    by (simp add: sample_suffix_jpg)
  from b pb nil jpg ct g gl have 2: "infer_extension sample_lib (ustr_of ''http://h/b'')
         (Some (ustr_of ''image/jpeg; charset=x'')) = Inr (ustr_of ''.jpg'')"
    by (simp add: sample_suffix_b)
  from c pb nil have 3: "infer_extension sample_lib (ustr_of ''http://h/b'') None
      = Inr (ustr_of ''.png'')"
    by (simp add: sample_suffix_b)
  from d pc have 4: "infer_extension checked_lib (ustr_of ''http://[::1/a.png'')
         (Some (ustr_of ''image/jpeg; charset=x'')) = Inl (Exception (ustr_of ''Invalid IPv6 URL''))"
    by blast
  from pa pb pc 1 2 3 4 show ?thesis by simp
qed

text \<open>
  Claim C7. When \<^verbatim>\<open>--urls-json\<close> is given (a string that is not empty), the reference
  list is what \<^verbatim>\<open>json.loads\<close> makes of it and the issue body plays no part; the
  extractor runs only when it is not given. In a run with a supplied list that writes a
  manifest, the URLs of the items are the supplied list as it is, in its order and with
  its duplicates.
\<close>

theorem supplied_list_used_verbatim:
  "(arg_urls_json a \<noteq> [] \<longrightarrow> resolve_urls L a body = json_loads L (arg_urls_json a))
   \<and> (arg_urls_json a = [] \<longrightarrow> resolve_urls L a body = Inr (extract_image_urls body))
   \<and> (arg_urls_json a \<noteq> [] \<and> json_loads L (arg_urls_json a) = Inr supplied
        \<and> main L W a w = (Inr (rc, m), w')
       \<longrightarrow> map item_url (items m) = supplied \<and> total_images m = length supplied)"
proof -
  have "map item_url (items m) = supplied \<and> total_images m = length supplied"
    if ne: "arg_urls_json a \<noteq> []" and js: "json_loads L (arg_urls_json a) = Inr supplied"
      and run: "main L W a w = (Inr (rc, m), w')"
  proof -
    from run obtain body' w1 urls w3 where
      rs: "resolve_urls L a body' = Inr urls"
      and m: "m = fst (process_items L W (Div (Path (arg_output_dir a)) (ustr_of ''inputs''))
          (Div (Path (arg_output_dir a)) (ustr_of ''results'')) 1 urls
          \<lparr>issue_number = arg_issue_number a, total_images = length urls,
           processed_images = 0, items = []\<rparr> w3)"
      by (rule main_manifest)
    from rs ne js have "urls = supplied" by (simp add: resolve_urls_def)
    then show ?thesis
      unfolding m by (simp add: process_items_urls process_items_total)
  qed
  then show ?thesis
    by (simp add: resolve_urls_def)
qed

theorem supplied_list_used_verbatim_witness:
  "arg_urls_json (sample_args\<lparr>arg_urls_json := sample_urls_json\<rparr>) \<noteq> []
   \<and> json_loads sample_lib (arg_urls_json (sample_args\<lparr>arg_urls_json := sample_urls_json\<rparr>))
       = Inr [ustr_of ''http://h/x.png'', ustr_of ''http://h/x.png'']
   \<and> resolve_urls sample_lib (sample_args\<lparr>arg_urls_json := sample_urls_json\<rparr>)
         sample_issue_body
       = Inr [ustr_of ''http://h/x.png'', ustr_of ''http://h/x.png'']
   \<and> arg_urls_json sample_args = []
   \<and> resolve_urls sample_lib sample_args sample_issue_body
       = Inr [ustr_of ''http://h/a.JPG'', ustr_of ''https://h/c.png'', ustr_of ''http://h/b'']
   \<and> map item_url (items (snd (projr (fst
         (main sample_lib sample_world (sample_args\<lparr>arg_urls_json := sample_urls_json\<rparr>)
            [ustr_of ''issue.md''])))))
       = [ustr_of ''http://h/x.png'', ustr_of ''http://h/x.png'']"
proof -
  let ?a = "sample_args\<lparr>arg_urls_json := sample_urls_json\<rparr>"
  have ne: "arg_urls_json ?a \<noteq> []"
    by (simp add: sample_urls_json_def)
  have js: "json_loads sample_lib (arg_urls_json ?a)
              = Inr [ustr_of ''http://h/x.png'', ustr_of ''http://h/x.png'']"
    by (simp add: sample_lib_def)
  have e: "arg_urls_json sample_args = []"
    by (simp add: sample_args_def)
  note t1 = supplied_list_used_verbatim [of ?a sample_lib sample_issue_body
      "[ustr_of ''http://h/x.png'', ustr_of ''http://h/x.png'']" sample_world
      "[ustr_of ''issue.md'']"]
  note t2 = supplied_list_used_verbatim [of sample_args sample_lib sample_issue_body]
  show ?thesis
    using ne js e t1 t2 sample_run_supplied sample_extract
    by simp
qed




text \<open>
  Claim C9. Every item of a written manifest has the status \<open>ok\<close> or \<open>failed\<close>: the
  status \<open>skipped\<close> an item starts with is replaced on every path before the item is
  appended.
\<close>

theorem written_status_ok_or_failed:
  assumes "main L W a w = (Inr (rc, m), w')"
  shows "\<forall>it \<in> set (items m). item_status it = Ok \<or> item_status it = Failed"
proof -
  from assms obtain body w1 urls w3 where
    m: "m = fst (process_items L W (Div (Path (arg_output_dir a)) (ustr_of ''inputs''))
        (Div (Path (arg_output_dir a)) (ustr_of ''results'')) 1 urls
        \<lparr>issue_number = arg_issue_number a, total_images = length urls,
         processed_images = 0, items = []\<rparr> w3)"
    by (rule main_manifest)
  have "\<forall>it \<in> set (items m). item_status it \<noteq> Skipped"
    unfolding m by (rule process_items_status) simp
  then show ?thesis
    by (metis status.exhaust)
qed

theorem written_status_ok_or_failed_witness:
  "main sample_lib sample_world sample_args [ustr_of ''issue.md'']
     = (Inr (0, sample_manifest),
        [ustr_of ''out/manifest.json'', ustr_of ''out/inputs/input_3.png'',
         ustr_of ''out/results/output_1.png'', ustr_of ''out/inputs/input_1.jpg'',
         ustr_of ''out/results'', ustr_of ''out/inputs'', ustr_of ''issue.md''])
   \<and> map item_status (items sample_manifest) = [Ok, Failed, Failed]
   \<and> list_all (\<lambda>it. item_status it = Ok \<or> item_status it = Failed) (items sample_manifest)"
  using sample_run written_status_ok_or_failed [OF sample_run]
  by (simp add: sample_manifest_def)

text \<open>
  Claim C10. The issue-body file is read first, whatever \<^verbatim>\<open>--urls-json\<close> is: when
  the read raises, the run ends with that exception and in the state the failed read
  left, so no directory was created, no item processed and no manifest written.
\<close>

theorem unreadable_issue_body_ends_run:
  assumes "read_text W (Path (arg_issue_body_file a)) w = (Inl e, w1)"
  shows "main L W a w = (Inl e, w1)"
  using assms by (simp add: main_def)

theorem unreadable_issue_body_ends_run_witness:
  "arg_urls_json (sample_args\<lparr>arg_urls_json := sample_urls_json\<rparr>) \<noteq> []
   \<and> read_text sample_world
         (Path (arg_issue_body_file (sample_args\<lparr>arg_urls_json := sample_urls_json\<rparr>))) []
       = (Inl (Exception (ustr_of ''No such file'')), [])
   \<and> main sample_lib sample_world (sample_args\<lparr>arg_urls_json := sample_urls_json\<rparr>) []
       = (Inl (Exception (ustr_of ''No such file'')), [])"
proof -
  have h: "read_text sample_world
         (Path (arg_issue_body_file (sample_args\<lparr>arg_urls_json := sample_urls_json\<rparr>))) []
       = (Inl (Exception (ustr_of ''No such file'')), [])"
    by (simp add: sample_world_def)
  show ?thesis
    using h unreadable_issue_body_ends_run [OF h, of sample_lib]
    by (simp add: sample_args_def sample_urls_json_def)
qed

end
